theory Spec2Isabelle
  imports Main "HOL-Library.Char_ord" "HOL-Library.List_Lexorder"
begin

section \<open>Strings of the Go standard library\<close>

text \<open>
  A Go string is a sequence of bytes and \<open>string\<close> is a list of 8-bit characters.
  Go compares strings bytewise and lexicographically, which is the order that
  \<open>Char_ord\<close> and \<open>List_Lexorder\<close> put on \<open>string\<close>.  The functions of package
  \<open>strings\<close> that \<open>mux.go\<close> calls are written out here; they are not part of the
  repository.
\<close>

definition strings_Compare :: "string \<Rightarrow> string \<Rightarrow> int" where
  "strings_Compare a b = (if a = b then 0 else if a < b then - 1 else 1)"

definition strings_HasPrefix :: "string \<Rightarrow> string \<Rightarrow> bool" where
  "strings_HasPrefix s prefix =
     (length s \<ge> length prefix \<and> take (length prefix) s = prefix)"

definition strings_HasSuffix :: "string \<Rightarrow> string \<Rightarrow> bool" where
  "strings_HasSuffix s suffix =
     (length s \<ge> length suffix \<and> drop (length s - length suffix) s = suffix)"

definition strings_Trim :: "string \<Rightarrow> string \<Rightarrow> string" where
  \<comment> \<open>\<open>strings.Trim(s, cutset)\<close>: all leading and trailing bytes of \<open>cutset\<close> removed.\<close>
  "strings_Trim s cutset =
     rev (dropWhile (\<lambda>c. c \<in> set cutset) (rev (dropWhile (\<lambda>c. c \<in> set cutset) s)))"

definition asciiSpace :: "char list" where
  "asciiSpace = [CHR 0x09, CHR 0x0A, CHR 0x0B, CHR 0x0C, CHR 0x0D, CHR '' '']"

definition strings_TrimSpace :: "string \<Rightarrow> string" where
  \<comment> \<open>\<open>strings.TrimSpace\<close> on ASCII white space (the multi-byte Unicode spaces are
      left out).\<close>
  "strings_TrimSpace s = strings_Trim s asciiSpace"

fun strings_Split :: "string \<Rightarrow> char \<Rightarrow> string list" where
  \<comment> \<open>\<open>strings.Split(s, sep)\<close> for a separator of one byte: the pieces between the
      separators, one more than there are separators, so \<open>[[]]\<close> on the empty string.\<close>
  "strings_Split [] sep = [[]]"
| "strings_Split (c # s) sep =
     (if c = sep then [] # strings_Split s sep
      else (case strings_Split s sep of
              [] \<Rightarrow> [[c]]
            | seg # segs \<Rightarrow> (c # seg) # segs))"

fun strings_Join :: "string list \<Rightarrow> string \<Rightarrow> string" where
  "strings_Join [] sep = []"
| "strings_Join [a] sep = a"
| "strings_Join (a # b # rest) sep = a @ sep @ strings_Join (b # rest) sep"

fun containsString :: "string list \<Rightarrow> string \<Rightarrow> bool" where
  "containsString [] v = False"
| "containsString (stringSliceValue # rest) v =
     (if stringSliceValue = v then True else containsString rest v)"

definition splitPathSegs :: "string \<Rightarrow> string list" where
  "splitPathSegs path =
     (let pathSegs = strings_Split (strings_Trim path ''/'') CHR ''/''
      in if length pathSegs = 1 \<and> pathSegs ! 0 = [] then [] else pathSegs)"

section \<open>Binary search\<close>

text \<open>
  \<open>sort.Search(n, f)\<close> of the Go library: the loop \<open>i, j := 0, n\<close>,
  \<open>for i < j { h := (i+j)/2; if !f(h) { i = h+1 } else { j = h } }\<close>, \<open>return i\<close>.
\<close>

function sort_Search_loop :: "(nat \<Rightarrow> bool) \<Rightarrow> nat \<Rightarrow> nat \<Rightarrow> nat" where
  "sort_Search_loop f i j =
     (if i < j then
        (if \<not> f ((i + j) div 2) then sort_Search_loop f ((i + j) div 2 + 1) j
         else sort_Search_loop f i ((i + j) div 2))
      else i)"
  by pat_completeness auto
termination
  by (relation "measure (\<lambda>(f, i, j). j - i)") auto

declare sort_Search_loop.simps [simp del]

definition sort_Search :: "nat \<Rightarrow> (nat \<Rightarrow> bool) \<Rightarrow> nat" where
  "sort_Search n f = sort_Search_loop f 0 n"

definition searchRange :: "nat \<Rightarrow> (nat \<Rightarrow> int) \<Rightarrow> nat \<times> nat \<times> bool" where
  "searchRange n fn =
     (let lo = sort_Search n (\<lambda>i. fn i \<le> 0);
          hi = sort_Search n (\<lambda>i. fn i < 0);
          found = (int hi - int lo > 0)
      in (lo, hi, found))"

section \<open>Errors\<close>

datatype error =
    ErrHandlerMustBeNotNil
  | ErrMethodMustBeValid
  | ErrRequestMustHaveContext
  | ErrRouteMustExist
  | ErrRouteMustNotConflict
  | ErrURLPatternInvalidQueryRoute
  | ErrURLPatternInvalidPathVar
  | ErrURLPatternMustBeValid

section \<open>Query routes\<close>

record queryEntry =
  Name :: string
  Value :: string

type_synonym queryRoute = "queryEntry list"

text \<open>
  \<open>url.Values\<close> is a Go map from a parameter name to the list of its values.  It is
  an association list with one pair for each name; the order of the pairs is the
  order in which Go happens to iterate over the map.
\<close>

type_synonym Values = "(string \<times> string list) list"

definition Less :: "queryEntry \<Rightarrow> queryEntry \<Rightarrow> bool" where
  "Less a b =
     (if Name a < Name b then True
      else if Name a > Name b then False
      else Value a < Value b)"

text \<open>
  \<open>sort.Sort\<close> orders the entries by \<open>Less\<close>.  Two entries that \<open>Less\<close> does not
  separate are equal, so every sorting algorithm returns the list that this insertion
  sort returns.
\<close>

fun sort_insert :: "queryEntry \<Rightarrow> queryRoute \<Rightarrow> queryRoute" where
  "sort_insert e [] = [e]"
| "sort_insert e (x # xs) = (if Less x e then x # sort_insert e xs else e # x # xs)"

fun sort_Sort :: "queryRoute \<Rightarrow> queryRoute" where
  "sort_Sort [] = []"
| "sort_Sort (e # es) = sort_insert e (sort_Sort es)"

fun scanParamValues ::
  "string \<Rightarrow> string list \<Rightarrow> bool \<Rightarrow> bool \<Rightarrow> queryRoute \<Rightarrow> error + queryRoute" where
  "scanParamValues paramName [] alreadyHavePresenceTest alreadyHaveValueTest entries =
     Inr entries"
| "scanParamValues paramName (paramValue # rest) alreadyHavePresenceTest
       alreadyHaveValueTest entries =
     (if alreadyHavePresenceTest then Inl ErrURLPatternInvalidQueryRoute
      else if paramValue = [] then
        (if alreadyHaveValueTest then Inl ErrURLPatternInvalidQueryRoute
         else scanParamValues paramName rest True alreadyHaveValueTest
                (entries @ [\<lparr>Name = paramName, Value = paramValue\<rparr>]))
      else scanParamValues paramName rest alreadyHavePresenceTest True
             (entries @ [\<lparr>Name = paramName, Value = paramValue\<rparr>]))"

fun scanParams :: "Values \<Rightarrow> queryRoute \<Rightarrow> error + queryRoute" where
  "scanParams [] entries = Inr entries"
| "scanParams ((paramName, paramValues) # rest) entries =
     (case scanParamValues paramName paramValues False False entries of
        Inl e \<Rightarrow> Inl e
      | Inr entries' \<Rightarrow> scanParams rest entries')"

definition newQueryRoute :: "Values \<Rightarrow> error + queryRoute" where
  "newQueryRoute urlQueryParamsAndValues =
     (case scanParams urlQueryParamsAndValues [] of
        Inl e \<Rightarrow> Inl e
      | Inr entries \<Rightarrow> Inr (sort_Sort entries))"

fun requestEntries :: "Values \<Rightarrow> queryRoute" where
  "requestEntries [] = []"
| "requestEntries ((paramName, paramValues) # rest) =
     map (\<lambda>paramValue. \<lparr>Name = paramName, Value = paramValue\<rparr>) paramValues
       @ requestEntries rest"

function Acceptable_loop :: "queryRoute \<Rightarrow> queryRoute \<Rightarrow> nat \<Rightarrow> nat \<Rightarrow> bool \<Rightarrow> bool" where
  "Acceptable_loop route reqSortedQueryEntries routeParamIndex queryParamIndex
       routeParamAlreadyUsed =
     (if routeParamIndex < length route \<and> queryParamIndex < length reqSortedQueryEntries
      then
        (if Name (route ! routeParamIndex) > Name (reqSortedQueryEntries ! queryParamIndex)
            \<or> (Name (route ! routeParamIndex) = Name (reqSortedQueryEntries ! queryParamIndex)
               \<and> Value (route ! routeParamIndex) \<noteq> []
               \<and> Value (route ! routeParamIndex)
                    > Value (reqSortedQueryEntries ! queryParamIndex))
         then Acceptable_loop route reqSortedQueryEntries routeParamIndex
                (queryParamIndex + 1) routeParamAlreadyUsed
         else if Name (route ! routeParamIndex) = Name (reqSortedQueryEntries ! queryParamIndex)
            \<and> (Value (route ! routeParamIndex) = []
               \<or> Value (route ! routeParamIndex)
                    = Value (reqSortedQueryEntries ! queryParamIndex))
         then Acceptable_loop route reqSortedQueryEntries routeParamIndex
                (queryParamIndex + 1) True
         else if routeParamAlreadyUsed
         then Acceptable_loop route reqSortedQueryEntries (routeParamIndex + 1)
                queryParamIndex False
         else False)
      else (if routeParamAlreadyUsed then routeParamIndex + 1 else routeParamIndex)
             = length route)"
  by pat_completeness auto
termination
  by (relation "measure (\<lambda>(route, req, ri, qi, used). (length route - ri) + (length req - qi))")
     auto

declare Acceptable_loop.simps [simp del]

definition Acceptable :: "queryRoute \<Rightarrow> Values \<Rightarrow> bool" where
  "Acceptable route requestQueryValues =
     Acceptable_loop route (sort_Sort (requestEntries requestQueryValues)) 0 0 False"

section \<open>URLs and requests\<close>

text \<open>
  The fields of Go's \<open>url.URL\<close> that the router reads.  \<open>Opaque\<close>, \<open>User\<close>,
  \<open>RawPath\<close> and \<open>Fragment\<close> are left out: they are empty in a URL of the form
  \<open>scheme://host/path?query\<close> without percent escapes, and in the request target
  \<open>/path?query\<close> that an HTTP server receives.
\<close>

record URL =
  Scheme :: string
  Host :: string
  Path :: string
  ForceQuery :: bool
  RawQuery :: string

definition IsAbs :: "URL \<Rightarrow> bool" where
  "IsAbs u = (Scheme u \<noteq> [])"

text \<open>
  \<open>url.Query()\<close> is \<open>ParseQuery(RawQuery)\<close> with the error dropped: the query is cut at
  each \<open>&\<close>, a piece holding \<open>;\<close> and an empty piece are skipped, the piece is cut at
  its first \<open>=\<close>, both halves are unescaped (\<open>+\<close> is a space, \<open>%XX\<close> a byte), and
  the value is appended to the values of its key.
\<close>

definition strings_Cut :: "string \<Rightarrow> char \<Rightarrow> string \<times> string \<times> bool" where
  \<comment> \<open>\<open>strings.Cut(s, sep)\<close> for a separator of one byte.\<close>
  "strings_Cut s sep =
     (if sep \<in> set s
      then (takeWhile (\<lambda>c. c \<noteq> sep) s, tl (dropWhile (\<lambda>c. c \<noteq> sep) s), True)
      else (s, [], False))"

definition ishex :: "char \<Rightarrow> bool" where
  "ishex c = ((CHR ''0'' \<le> c \<and> c \<le> CHR ''9'') \<or> (CHR ''a'' \<le> c \<and> c \<le> CHR ''f'')
              \<or> (CHR ''A'' \<le> c \<and> c \<le> CHR ''F''))"

definition unhex :: "char \<Rightarrow> nat" where
  "unhex c =
     (if CHR ''0'' \<le> c \<and> c \<le> CHR ''9'' then of_char c - of_char CHR ''0''
      else if CHR ''a'' \<le> c \<and> c \<le> CHR ''f'' then of_char c - of_char CHR ''a'' + 10
      else if CHR ''A'' \<le> c \<and> c \<le> CHR ''F'' then of_char c - of_char CHR ''A'' + 10
      else 0)"

fun QueryUnescape :: "string \<Rightarrow> string option" where
  "QueryUnescape [] = Some []"
| "QueryUnescape (c # s) =
     (if c = CHR ''%'' then
        (case s of
           a # b # rest \<Rightarrow>
             (if ishex a \<and> ishex b
              then map_option ((#) (char_of (unhex a * 16 + unhex b))) (QueryUnescape rest)
              else None)
         | _ \<Rightarrow> None)
      else if c = CHR ''+'' then map_option ((#) CHR '' '') (QueryUnescape s)
      else map_option ((#) c) (QueryUnescape s))"

fun Values_append :: "Values \<Rightarrow> string \<Rightarrow> string \<Rightarrow> Values" where
  \<comment> \<open>\<open>m[key] = append(m[key], value)\<close>\<close>
  "Values_append [] k v = [(k, [v])]"
| "Values_append ((k', vs) # m) k v =
     (if k' = k then (k', vs @ [v]) # m else (k', vs) # Values_append m k v)"

fun parseQuery :: "Values \<Rightarrow> string list \<Rightarrow> Values" where
  "parseQuery m [] = m"
| "parseQuery m (piece # rest) =
     (if CHR '';'' \<in> set piece then parseQuery m rest
      else if piece = [] then parseQuery m rest
      else (case strings_Cut piece CHR ''='' of (k, v, _) \<Rightarrow>
        (case QueryUnescape k of
           None \<Rightarrow> parseQuery m rest
         | Some k' \<Rightarrow>
            (case QueryUnescape v of
               None \<Rightarrow> parseQuery m rest
             | Some v' \<Rightarrow> parseQuery (Values_append m k' v') rest))))"

definition Query :: "URL \<Rightarrow> Values" where
  "Query u = parseQuery [] (strings_Split (RawQuery u) CHR ''&'')"

text \<open>
  \<open>URL.RequestURI()\<close>: the escaped path (\<open>/\<close> when empty), then \<open>?\<close> and the raw
  query when there is one.  \<open>escape\<close> in path mode keeps letters, digits and
  \<open>-_.~$&+,/:;=@\<close> and writes every other byte as \<open>%XX\<close>.
\<close>

definition shouldEscape_path :: "char \<Rightarrow> bool" where
  "shouldEscape_path c =
     (if (CHR ''a'' \<le> c \<and> c \<le> CHR ''z'') \<or> (CHR ''A'' \<le> c \<and> c \<le> CHR ''Z'')
          \<or> (CHR ''0'' \<le> c \<and> c \<le> CHR ''9'') then False
      else if c \<in> set ''-_.~'' then False
      else if c \<in> set ''$&+,/:;=?@'' then c = CHR ''?''
      else True)"

definition upperhex :: "string" where
  "upperhex = ''0123456789ABCDEF''"

fun escape_path :: "string \<Rightarrow> string" where
  "escape_path [] = []"
| "escape_path (c # s) =
     (if shouldEscape_path c
      then CHR ''%'' # upperhex ! (of_char c div 16) # upperhex ! (of_char c mod 16)
             # escape_path s
      else c # escape_path s)"

definition EscapedPath :: "URL \<Rightarrow> string" where
  "EscapedPath u = (if Path u = ''*'' then ''*'' else escape_path (Path u))"

definition RequestURI :: "URL \<Rightarrow> string" where
  "RequestURI u =
     (let result = (if EscapedPath u = [] then ''/'' else EscapedPath u)
      in if ForceQuery u \<or> RawQuery u \<noteq> [] then result @ ''?'' @ RawQuery u else result)"

text \<open>
  The fields of \<open>http.Request\<close> that the router reads; \<open>TLS\<close> is whether the
  field \<open>TLS\<close> is not nil.  The fields \<open>Host\<close> and \<open>URL\<close> of the request are
  \<open>ReqHost\<close> and \<open>ReqURL\<close> here, since \<open>Host\<close> is a field of \<open>URL\<close> too.
\<close>

record Request =
  Method :: string
  TLS :: bool
  ReqHost :: string
  ReqURL :: URL

section \<open>Routes\<close>

definition defaultAllowedSchemes :: "string list" where
  "defaultAllowedSchemes = [''http'', ''https'']"

definition defaultAllowedHTTPMethods :: "string list" where
  "defaultAllowedHTTPMethods =
     [''PUT'', ''GET'', ''HEAD'', ''OPTIONS'', ''POST'', ''PATCH'', ''DELETE'', ''CONNECT'',
      ''TRACE'']"

text \<open>
  The field \<open>method\<close> of the source is \<open>route_method\<close> here.  \<open>vars\<close> is a Go map
  from a variable name to the index of its segment.  It is an association list with
  one pair for each name, since \<open>PathVars\<close> iterates over it.
\<close>

record muxRoute =
  route_method :: string
  scheme :: string
  host :: string
  path :: "string list"
  vars :: "(string \<times> nat) list"
  query :: queryRoute

fun extractVars ::
  "string list \<Rightarrow> nat \<Rightarrow> int \<Rightarrow> (string \<times> nat) list \<Rightarrow> error + (string \<times> nat) list" where
  "extractVars [] i lastSeg vs = Inr vs"
| "extractVars (v # rest) i lastSeg vs =
     (if \<not> strings_HasPrefix v ''{'' \<or> \<not> strings_HasSuffix v ''}''
      then extractVars rest (i + 1) lastSeg vs
      else
        (let k = strings_TrimSpace (strings_Trim v ''{}'')
         in if k = [] then Inl ErrURLPatternInvalidPathVar
            else if k = ''*'' \<and> int i \<noteq> lastSeg then Inl ErrURLPatternInvalidPathVar
            else if map_of vs k \<noteq> None then Inl ErrURLPatternInvalidPathVar
            else extractVars rest (i + 1) lastSeg (vs @ [(k, i)])))"

text \<open>
  \<open>url.Parse\<close> belongs to the Go library and is a parameter \<open>parse\<close> of the model:
  \<open>None\<close> is its error, \<open>Some u\<close> the URL it returns.
\<close>

definition newMuxRoute ::
  "(string \<Rightarrow> URL option) \<Rightarrow> string \<Rightarrow> string \<Rightarrow> error + muxRoute" where
  "newMuxRoute parse httpMethod urlPattern =
     (if \<not> containsString defaultAllowedHTTPMethods httpMethod then Inl ErrMethodMustBeValid
      else if urlPattern = [] then Inl ErrURLPatternMustBeValid
      else (case parse urlPattern of
        None \<Rightarrow> Inl ErrURLPatternMustBeValid
      | Some url \<Rightarrow>
         (if \<not> IsAbs url then Inl ErrURLPatternMustBeValid
          else if \<not> containsString defaultAllowedSchemes (Scheme url)
            then Inl ErrURLPatternMustBeValid
          else if Host url = [] then Inl ErrURLPatternMustBeValid
          else if strings_HasPrefix (Host url) '':'' then Inl ErrURLPatternMustBeValid
          else
            (let pathSegments = splitPathSegs (Path url);
                 lastSeg = int (length pathSegments) - 1
             in case extractVars pathSegments 0 lastSeg [] of
                  Inl e \<Rightarrow> Inl e
                | Inr vs \<Rightarrow>
                   (case newQueryRoute (Query url) of
                      Inl e \<Rightarrow> Inl e
                    | Inr queryRoute \<Rightarrow>
                        Inr \<lparr>route_method = httpMethod, scheme = Scheme url, host = Host url,
                             path = pathSegments, vars = vs, query = queryRoute\<rparr>)))))"

section \<open>The three comparators\<close>

definition compareMethodSchemeHost ::
  "string \<Rightarrow> string \<Rightarrow> string \<Rightarrow> string \<Rightarrow> string \<Rightarrow> string \<Rightarrow> int" where
  "compareMethodSchemeHost httpMethod1 httpMethod2 scheme1 scheme2 host1 host2 =
     (if strings_Compare httpMethod1 httpMethod2 \<noteq> 0 then strings_Compare httpMethod1 httpMethod2
      else if strings_Compare scheme1 scheme2 \<noteq> 0 then strings_Compare scheme1 scheme2
      else if strings_Compare host1 host2 \<noteq> 0 then strings_Compare host1 host2
      else 0)"

definition isVarSeg :: "string \<Rightarrow> bool" where
  \<comment> \<open>\<open>strings.HasPrefix(seg, "{") && strings.HasSuffix(seg, "}")\<close>\<close>
  "isVarSeg seg = (strings_HasPrefix seg ''{'' \<and> strings_HasSuffix seg ''}'')"

text \<open>
  Each loop that can return from inside is a function to \<open>int option\<close>: \<open>Some r\<close> when
  the Go function returns \<open>r\<close> inside the loop, \<open>None\<close> when the loop runs to its end.
\<close>

function compareDynamicRoutes_path :: "string list \<Rightarrow> string list \<Rightarrow> nat \<Rightarrow> int option" where
  "compareDynamicRoutes_path p1 p2 i =
     (if i < length p1 \<and> i < length p2 then
        (if (i = length p1 - 1 \<and> p1 ! i = ''{*}'') \<or> (i = length p2 - 1 \<and> p2 ! i = ''{*}'')
         then Some 0
         else if isVarSeg (p1 ! i) \<noteq> isVarSeg (p2 ! i) then Some 0
         else if isVarSeg (p1 ! i) then compareDynamicRoutes_path p1 p2 (i + 1)
         else if strings_Compare (p1 ! i) (p2 ! i) \<noteq> 0
           then Some (strings_Compare (p1 ! i) (p2 ! i))
         else compareDynamicRoutes_path p1 p2 (i + 1))
      else None)"
  by pat_completeness auto
termination
  by (relation "measure (\<lambda>(p1, p2, i). length p1 - i)") auto

declare compareDynamicRoutes_path.simps [simp del]

function compareDynamicRoutes_query :: "queryRoute \<Rightarrow> queryRoute \<Rightarrow> nat \<Rightarrow> int option" where
  "compareDynamicRoutes_query q1 q2 i =
     (if i < length q1 then
        (if strings_Compare (Name (q1 ! i)) (Name (q2 ! i)) \<noteq> 0
           then Some (strings_Compare (Name (q1 ! i)) (Name (q2 ! i)))
         else if Value (q1 ! i) = [] \<or> Value (q2 ! i) = []
           then compareDynamicRoutes_query q1 q2 (i + 1)
         else if strings_Compare (Value (q1 ! i)) (Value (q2 ! i)) \<noteq> 0
           then Some (strings_Compare (Value (q1 ! i)) (Value (q2 ! i)))
         else compareDynamicRoutes_query q1 q2 (i + 1))
      else None)"
  by pat_completeness auto
termination
  by (relation "measure (\<lambda>(q1, q2, i). length q1 - i)") auto

declare compareDynamicRoutes_query.simps [simp del]

definition compareDynamicRoutes :: "muxRoute \<Rightarrow> muxRoute \<Rightarrow> int" where
  "compareDynamicRoutes r1 r2 =
     (let r = compareMethodSchemeHost (route_method r1) (route_method r2) (scheme r1) (scheme r2)
                (host r1) (host r2)
      in if r \<noteq> 0 then r
      else (case compareDynamicRoutes_path (path r1) (path r2) 0 of
        Some r \<Rightarrow> r
      | None \<Rightarrow>
         (if int (length (path r1)) - int (length (path r2)) \<noteq> 0
            then int (length (path r1)) - int (length (path r2))
          else if int (length (query r2)) - int (length (query r1)) \<noteq> 0
            then int (length (query r2)) - int (length (query r1))
          else (case compareDynamicRoutes_query (query r1) (query r2) 0 of
            Some r \<Rightarrow> r
          | None \<Rightarrow> 0))))"

function compareStaticRoutes_path :: "string list \<Rightarrow> string list \<Rightarrow> nat \<Rightarrow> int option" where
  "compareStaticRoutes_path p1 p2 i =
     (if i < length p1 \<and> i < length p2 then
        (if strings_Compare (p1 ! i) (p2 ! i) \<noteq> 0 then Some (strings_Compare (p1 ! i) (p2 ! i))
         else compareStaticRoutes_path p1 p2 (i + 1))
      else None)"
  by pat_completeness auto
termination
  by (relation "measure (\<lambda>(p1, p2, i). length p1 - i)") auto

declare compareStaticRoutes_path.simps [simp del]

function compareStaticRoutes_query :: "queryRoute \<Rightarrow> queryRoute \<Rightarrow> nat \<Rightarrow> int option" where
  "compareStaticRoutes_query q1 q2 i =
     (if i < length q1 then
        (if strings_Compare (Name (q1 ! i)) (Name (q2 ! i)) \<noteq> 0
           then Some (strings_Compare (Name (q1 ! i)) (Name (q2 ! i)))
         else if strings_Compare (Value (q1 ! i)) (Value (q2 ! i)) \<noteq> 0
           then Some (strings_Compare (Value (q1 ! i)) (Value (q2 ! i)))
         else compareStaticRoutes_query q1 q2 (i + 1))
      else None)"
  by pat_completeness auto
termination
  by (relation "measure (\<lambda>(q1, q2, i). length q1 - i)") auto

declare compareStaticRoutes_query.simps [simp del]

definition compareStaticRoutes :: "muxRoute \<Rightarrow> muxRoute \<Rightarrow> int" where
  "compareStaticRoutes r1 r2 =
     (let r = compareMethodSchemeHost (route_method r1) (route_method r2) (scheme r1) (scheme r2)
                (host r1) (host r2)
      in if r \<noteq> 0 then r
      else (case compareStaticRoutes_path (path r1) (path r2) 0 of
        Some r \<Rightarrow> r
      | None \<Rightarrow>
         (if int (length (path r1)) - int (length (path r2)) \<noteq> 0
            then int (length (path r1)) - int (length (path r2))
          else if int (length (query r2)) - int (length (query r1)) \<noteq> 0
            then int (length (query r2)) - int (length (query r1))
          else (case compareStaticRoutes_query (query r1) (query r2) 0 of
            Some r \<Rightarrow> r
          | None \<Rightarrow> 0))))"

function compareRequestRoute_path :: "string list \<Rightarrow> string list \<Rightarrow> nat \<Rightarrow> int option" where
  "compareRequestRoute_path reqSegs routePath i =
     (if i < length reqSegs \<and> i < length routePath then
        (if i = length routePath - 1 \<and> routePath ! i = ''{*}'' then Some 0
         else if isVarSeg (routePath ! i) then compareRequestRoute_path reqSegs routePath (i + 1)
         else if strings_Compare (reqSegs ! i) (routePath ! i) \<noteq> 0
           then Some (strings_Compare (reqSegs ! i) (routePath ! i))
         else compareRequestRoute_path reqSegs routePath (i + 1))
      else None)"
  by pat_completeness auto
termination
  by (relation "measure (\<lambda>(reqSegs, routePath, i). length reqSegs - i)") auto

declare compareRequestRoute_path.simps [simp del]

definition compareRequestRoute :: "Request \<Rightarrow> muxRoute \<Rightarrow> int" where
  "compareRequestRoute req rt =
     (let scheme' = (if TLS req then ''https'' else ''http'');
          r = compareMethodSchemeHost (Method req) (route_method rt) scheme' (scheme rt)
                (ReqHost req) (host rt)
      in if r \<noteq> 0 then r
      else
        (let reqSegs = splitPathSegs (RequestURI (ReqURL req))
         in case compareRequestRoute_path reqSegs (path rt) 0 of
              Some r \<Rightarrow> r
            | None \<Rightarrow> int (length reqSegs) - int (length (path rt))))"

section \<open>The routing table\<close>

record 'h muxEntry =
  route :: muxRoute
  handler :: 'h

text \<open>
  The state of a \<open>Mux\<close>: the fallback handler and the entries.  The lock is left out,
  the model runs one call at a time.
\<close>

record 'h Mux =
  NotFoundHandler :: "'h option"
  entries :: "'h muxEntry list"

text \<open>
  \<open>Handle\<close> returns the error (\<open>None\<close> for nil) and the state after the call.  The
  three statements \<open>append(m.entries, muxEntry{})\<close>, \<open>copy(m.entries[i+1:],
  m.entries[i:])\<close> and \<open>m.entries[i] = ...\<close> put the new entry at index \<open>i\<close> and
  move the entries from \<open>i\<close> on one place up.  A nil handler is \<open>None\<close>.
\<close>

definition Handle ::
  "(string \<Rightarrow> URL option) \<Rightarrow> string \<Rightarrow> string \<Rightarrow> 'h option \<Rightarrow> 'h Mux
     \<Rightarrow> error option \<times> 'h Mux" where
  "Handle parse httpMethod urlPattern hdl m =
     (case newMuxRoute parse httpMethod urlPattern of
        Inl err \<Rightarrow> (Some err, m)
      | Inr rt \<Rightarrow>
         (case hdl of
            None \<Rightarrow> (Some ErrHandlerMustBeNotNil, m)
          | Some h \<Rightarrow>
             (case searchRange (length (entries m))
                     (\<lambda>i. compareDynamicRoutes rt (route (entries m ! i))) of
                (i, _, found) \<Rightarrow>
                  if found then (Some ErrRouteMustNotConflict, m)
                  else (None,
                        m\<lparr>entries := take i (entries m) @ [\<lparr>route = rt, handler = h\<rparr>]
                                        @ drop i (entries m)\<rparr>))))"

text \<open>
  \<open>m.entries[:i+copy(m.entries[i:], m.entries[i+1:])]\<close> moves the entries after
  index \<open>i\<close> one place down and drops the last place: the entry at \<open>i\<close> is removed.
\<close>

definition RemoveHandler ::
  "(string \<Rightarrow> URL option) \<Rightarrow> string \<Rightarrow> string \<Rightarrow> 'h Mux \<Rightarrow> error option \<times> 'h Mux" where
  "RemoveHandler parse httpMethod urlPattern m =
     (case newMuxRoute parse httpMethod urlPattern of
        Inl err \<Rightarrow> (Some err, m)
      | Inr rt \<Rightarrow>
         (case searchRange (length (entries m))
                 (\<lambda>i. compareStaticRoutes rt (route (entries m ! i))) of
            (i, _, found) \<Rightarrow>
              if \<not> found then (Some ErrRouteMustExist, m)
              else (None, m\<lparr>entries := take i (entries m) @ drop (i + 1) (entries m)\<rparr>)))"

text \<open>
  \<open>PathVars\<close> indexes the segments of the request path with the stored indices.  An
  index out of range is a run-time panic in Go, so the result is a sum.
\<close>

datatype panic = IndexOutOfRange | SliceBoundsOutOfRange

fun PathVars_loop ::
  "(string \<times> nat) list \<Rightarrow> string list \<Rightarrow> (string \<rightharpoonup> string) \<Rightarrow> panic + (string \<rightharpoonup> string)" where
  "PathVars_loop [] pathSegs vs = Inr vs"
| "PathVars_loop ((k, v) # rest) pathSegs vs =
     (if k = ''*'' then
        (if v > length pathSegs then Inl SliceBoundsOutOfRange
         else PathVars_loop rest pathSegs (vs(k \<mapsto> strings_Join (drop v pathSegs) ''/'')))
      else if v \<ge> length pathSegs then Inl IndexOutOfRange
      else PathVars_loop rest pathSegs (vs(k \<mapsto> pathSegs ! v)))"

definition PathVars :: "'h Mux \<Rightarrow> Request \<Rightarrow> panic + (string \<rightharpoonup> string)" where
  "PathVars m r =
     (case searchRange (length (entries m))
             (\<lambda>i. compareRequestRoute r (route (entries m ! i))) of
        (i, _, found) \<Rightarrow>
          if \<not> found then Inr Map.empty
          else PathVars_loop (vars (route (entries m ! i))) (splitPathSegs (Path (ReqURL r)))
                 Map.empty)"

section \<open>A parser for plain patterns\<close>

text \<open>
  An instance of the parameter \<open>parse\<close> for the examples: it reads a pattern
  \<open>scheme://authority/path?query\<close> whose scheme is made of lower-case letters, whose
  authority is made of letters, digits, \<open>.\<close> and \<open>-\<close> with an optional \<open>:port\<close> of
  digits, and whose path and query are printable ASCII without \<open>%\<close> and \<open>#\<close>.  On
  these \<open>url.Parse\<close> returns the same fields.  Every other string is \<open>None\<close> here.
\<close>

definition isLower :: "char \<Rightarrow> bool" where
  "isLower c = (CHR ''a'' \<le> c \<and> c \<le> CHR ''z'')"

definition isDigit :: "char \<Rightarrow> bool" where
  "isDigit c = (CHR ''0'' \<le> c \<and> c \<le> CHR ''9'')"

definition isHostChar :: "char \<Rightarrow> bool" where
  "isHostChar c =
     (isLower c \<or> (CHR ''A'' \<le> c \<and> c \<le> CHR ''Z'') \<or> isDigit c \<or> c = CHR ''.'' \<or> c = CHR ''-'')"

definition isPlainChar :: "char \<Rightarrow> bool" where
  "isPlainChar c = (CHR '' '' \<le> c \<and> c \<le> CHR ''~'' \<and> c \<noteq> CHR ''%'' \<and> c \<noteq> CHR ''#'')"

definition plainAuthority :: "string \<Rightarrow> bool" where
  "plainAuthority a =
     (case strings_Cut a CHR '':'' of
        (h, port, _) \<Rightarrow> list_all isHostChar h \<and> list_all isDigit port)"

definition plainParse :: "string \<Rightarrow> URL option" where
  "plainParse rawURL =
     (case strings_Cut rawURL CHR '':'' of
        (sch, rest, hasColon) \<Rightarrow>
          if hasColon \<and> sch \<noteq> [] \<and> list_all isLower sch \<and> list_all isPlainChar rest
             \<and> strings_HasPrefix rest ''//''
          then (case strings_Cut (drop 2 rest) CHR ''?'' of
            (hier, rawQuery, hasQuery) \<Rightarrow>
              (let authority = takeWhile (\<lambda>c. c \<noteq> CHR ''/'') hier;
                   pth = dropWhile (\<lambda>c. c \<noteq> CHR ''/'') hier
               in if plainAuthority authority
                  then Some \<lparr>Scheme = sch, Host = authority, Path = pth,
                             ForceQuery = (hasQuery \<and> rawQuery = []), RawQuery = rawQuery\<rparr>
                  else None))
          else None)"

section \<open>The dynamic comparator as claim C3 words it\<close>

text \<open>
  Claim C3 says that a position where exactly one of the two segments is a variable is
  skipped, and that the later segments, the lengths and the queries decide.  This is
  \<open>compareDynamicRoutes\<close> with that one branch changed from \<open>return 0\<close> to
  \<open>continue\<close>, to be compared with the comparator of the source.
\<close>

function compareDynamicRoutes_path_claimed ::
  "string list \<Rightarrow> string list \<Rightarrow> nat \<Rightarrow> int option" where
  "compareDynamicRoutes_path_claimed p1 p2 i =
     (if i < length p1 \<and> i < length p2 then
        (if (i = length p1 - 1 \<and> p1 ! i = ''{*}'') \<or> (i = length p2 - 1 \<and> p2 ! i = ''{*}'')
         then Some 0
         else if isVarSeg (p1 ! i) \<noteq> isVarSeg (p2 ! i)
           then compareDynamicRoutes_path_claimed p1 p2 (i + 1)
         else if isVarSeg (p1 ! i) then compareDynamicRoutes_path_claimed p1 p2 (i + 1)
         else if strings_Compare (p1 ! i) (p2 ! i) \<noteq> 0
           then Some (strings_Compare (p1 ! i) (p2 ! i))
         else compareDynamicRoutes_path_claimed p1 p2 (i + 1))
      else None)"
  by pat_completeness auto
termination
  by (relation "measure (\<lambda>(p1, p2, i). length p1 - i)") auto

declare compareDynamicRoutes_path_claimed.simps [simp del]

definition compareDynamicRoutes_claimed :: "muxRoute \<Rightarrow> muxRoute \<Rightarrow> int" where
  "compareDynamicRoutes_claimed r1 r2 =
     (let r = compareMethodSchemeHost (route_method r1) (route_method r2) (scheme r1)
                (scheme r2) (host r1) (host r2)
      in if r \<noteq> 0 then r
      else (case compareDynamicRoutes_path_claimed (path r1) (path r2) 0 of
        Some r \<Rightarrow> r
      | None \<Rightarrow>
         (if int (length (path r1)) - int (length (path r2)) \<noteq> 0
            then int (length (path r1)) - int (length (path r2))
          else if int (length (query r2)) - int (length (query r1)) \<noteq> 0
            then int (length (query r2)) - int (length (query r1))
          else (case compareDynamicRoutes_query (query r1) (query r2) 0 of
            Some r \<Rightarrow> r
          | None \<Rightarrow> 0))))"

section \<open>Sorted query routes\<close>

text \<open>
  What the specification calls sorted by name, then value: of two entries the earlier
  has the smaller name, or the same name and a value that is not greater.
\<close>

definition sortedByNameValue :: "queryRoute \<Rightarrow> bool" where
  "sortedByNameValue r =
     sorted_wrt (\<lambda>a b. Name a < Name b \<or> (Name a = Name b \<and> Value a \<le> Value b)) r"

text \<open>
  A request satisfies an entry of a query route when, for a presence test, the name
  is among the names of the request parameters and, for a value test, the pair of
  name and value is among the request parameters.
\<close>

definition satisfiedBy :: "queryEntry \<Rightarrow> queryRoute \<Rightarrow> bool" where
  "satisfiedBy e qs = (if Value e = [] then Name e \<in> Name ` set qs else e \<in> set qs)"

text \<open>
  In a route that \<open>newQueryRoute\<close> builds, a presence test is the only entry of its
  name.
\<close>

definition presenceAlone :: "queryRoute \<Rightarrow> bool" where
  "presenceAlone r = (\<forall>a\<in>set r. \<forall>b\<in>set r. Name a = Name b \<and> Value a = [] \<longrightarrow> b = a)"

section \<open>Example tables and requests\<close>

text \<open>
  The examples register handlers that are natural numbers, so that the order of the
  entries of a table can be read from \<open>map handler\<close>.
\<close>

definition mux_empty :: "nat Mux" where
  "mux_empty = \<lparr>NotFoundHandler = None, entries = []\<rparr>"

definition request :: "string \<Rightarrow> string \<Rightarrow> string \<Rightarrow> string \<Rightarrow> Request" where
  \<comment> \<open>a request without TLS for the target \<open>pth?rawQuery\<close>\<close>
  "request mth hst pth rawQuery =
     \<lparr>Method = mth, TLS = False, ReqHost = hst,
      ReqURL = \<lparr>Scheme = [], Host = [], Path = pth, ForceQuery = False,
                RawQuery = rawQuery\<rparr>\<rparr>"

definition table_a :: "nat Mux" where
  "table_a = snd (Handle plainParse ''GET'' ''http://h/a'' (Some 1) mux_empty)"

definition table_fixed :: "nat Mux" where
  "table_fixed = snd (Handle plainParse ''GET'' ''http://h/fixed'' (Some 1) mux_empty)"

definition table_fixed_slash :: "nat Mux" where
  "table_fixed_slash = snd (Handle plainParse ''GET'' ''http://h/fixed/'' (Some 1) mux_empty)"

definition table_parent :: "nat Mux" where
  "table_parent = snd (Handle plainParse ''GET'' ''http://h/parent/{*}'' (Some 1) mux_empty)"

definition table_pq :: "nat Mux" where
  "table_pq = snd (Handle plainParse ''GET'' ''http://h/{p}/{q}'' (Some 1) mux_empty)"

definition table_q1 :: "nat Mux" where
  "table_q1 = snd (Handle plainParse ''GET'' ''http://h/p?a=1&b'' (Some 1) mux_empty)"

definition table_q2 :: "nat Mux" where
  "table_q2 = snd (Handle plainParse ''GET'' ''http://h/p?a=2&b=x'' (Some 2) table_q1)"

definition table_q3 :: "nat Mux" where
  "table_q3 = snd (Handle plainParse ''GET'' ''http://h/p?a&b=z'' (Some 3) table_q2)"

definition table_w :: "nat Mux" where
  "table_w = snd (Handle plainParse ''GET'' ''http://h/{w}/a'' (Some 1) mux_empty)"

definition table_wv :: "nat Mux" where
  "table_wv = snd (Handle plainParse ''GET'' ''http://h/{v}/b'' (Some 2) table_w)"

definition route_var_x :: muxRoute where
  \<comment> \<open>\<open>GET http://h/{a}/x\<close>\<close>
  "route_var_x =
     \<lparr>route_method = ''GET'', scheme = ''http'', host = ''h'', path = [''{a}'', ''x''],
      vars = [(''a'', 0)], query = []\<rparr>"

definition route_fixed_y :: muxRoute where
  \<comment> \<open>\<open>GET http://h/fixed/y\<close>\<close>
  "route_fixed_y =
     \<lparr>route_method = ''GET'', scheme = ''http'', host = ''h'', path = [''fixed'', ''y''],
      vars = [], query = []\<rparr>"

section \<open>Properties\<close>

subsection \<open>Helper lemmas\<close>

lemma strings_Trim_append_cutset:
  assumes "c \<in> set cutset"
  shows "strings_Trim (s @ [c]) cutset = strings_Trim s cutset"
proof (cases "\<forall>x\<in>set s. x \<in> set cutset")
  case True
  then have 1: "dropWhile (\<lambda>c. c \<in> set cutset) s = []"
    by (simp add: dropWhile_eq_Nil_conv)
  from True assms have 2: "dropWhile (\<lambda>c. c \<in> set cutset) (s @ [c]) = []"
    by (simp add: dropWhile_eq_Nil_conv)
  show ?thesis
    by (simp only: strings_Trim_def 1 2)
next
  case False
  then have "dropWhile (\<lambda>c. c \<in> set cutset) (s @ [c])
      = dropWhile (\<lambda>c. c \<in> set cutset) s @ [c]"
    by (auto simp add: dropWhile_append)
  with assms show ?thesis
    by (simp add: strings_Trim_def)
qed

lemma splitPathSegs_trailing_slash: "splitPathSegs (p @ ''/'') = splitPathSegs p"
  using strings_Trim_append_cutset [of "CHR ''/''" "''/''" p]
  by (simp add: splitPathSegs_def)

lemma strings_Compare_refl: "strings_Compare a a = 0"
  by (simp add: strings_Compare_def)

lemma compareStaticRoutes_path_refl: "compareStaticRoutes_path p p i = None"
proof (induction "length p - i" arbitrary: i)
  case 0
  then show ?case by (simp add: compareStaticRoutes_path.simps)
next
  case (Suc n)
  then have "compareStaticRoutes_path p p (i + 1) = None" by simp
  then show ?case
    by (subst compareStaticRoutes_path.simps) (simp add: strings_Compare_refl)
qed

lemma compareStaticRoutes_query_refl: "compareStaticRoutes_query q q i = None"
proof (induction "length q - i" arbitrary: i)
  case 0
  then show ?case by (simp add: compareStaticRoutes_query.simps)
next
  case (Suc n)
  then have "compareStaticRoutes_query q q (i + 1) = None" by simp
  then show ?case
    by (subst compareStaticRoutes_query.simps) (simp add: strings_Compare_refl)
qed

lemma compareStaticRoutes_refl: "compareStaticRoutes r r = 0"
  by (simp add: compareStaticRoutes_def compareMethodSchemeHost_def strings_Compare_refl
      compareStaticRoutes_path_refl compareStaticRoutes_query_refl)

lemma newMuxRoute_trailing_slash:
  assumes "parse p1 = Some u" and "parse p2 = Some (u\<lparr>Path := Path u @ ''/''\<rparr>)"
    and "p1 \<noteq> []" and "p2 \<noteq> []"
  shows "newMuxRoute parse httpMethod p2 = newMuxRoute parse httpMethod p1"
  using assms
  by (simp add: newMuxRoute_def IsAbs_def Query_def splitPathSegs_trailing_slash Let_def
      cong: sum.case_cong)

lemma compareDynamicRoutes_path_mismatch:
  assumes "i < length p1" and "i < length p2"
    and "isVarSeg (p1 ! i) \<noteq> isVarSeg (p2 ! i)"
    and "\<forall>j<i. isVarSeg (p1 ! j) = isVarSeg (p2 ! j) \<and> (isVarSeg (p1 ! j) \<or> p1 ! j = p2 ! j)"
    and "k \<le> i"
  shows "compareDynamicRoutes_path p1 p2 k = Some 0"
  using assms(5)
proof (induction "i - k" arbitrary: k)
  case 0
  then have "k = i" by simp
  with assms(1-3) show ?case
    by (subst compareDynamicRoutes_path.simps) simp
next
  case (Suc n)
  then have lt: "k < i" and ih: "compareDynamicRoutes_path p1 p2 (k + 1) = Some 0"
    by simp_all
  from lt assms(4) have same: "isVarSeg (p1 ! k) = isVarSeg (p2 ! k)"
    and lit: "isVarSeg (p1 ! k) \<or> p1 ! k = p2 ! k"
    by blast+
  from lt assms(1,2) have inside: "k < length p1" "k < length p2"
    and notlast: "k \<noteq> length p1 - 1" "k \<noteq> length p2 - 1"
    by simp_all
  show ?case
  proof (cases "isVarSeg (p1 ! k)")
    case True
    with same inside notlast ih show ?thesis
      by (subst compareDynamicRoutes_path.simps) simp
  next
    case False
    with lit have "strings_Compare (p1 ! k) (p2 ! k) = 0"
      by (simp add: strings_Compare_def)
    with False same inside notlast ih show ?thesis
      by (subst compareDynamicRoutes_path.simps) simp
  qed
qed

lemma Less_iff: "Less a b \<longleftrightarrow> Name a < Name b \<or> (Name a = Name b \<and> Value a < Value b)"
  by (auto simp: Less_def)

lemma set_sort_insert: "set (sort_insert e xs) = insert e (set xs)"
  by (induction xs) auto

lemma set_sort_Sort: "set (sort_Sort xs) = set xs"
  by (induction xs) (auto simp: set_sort_insert)

lemma length_sort_insert: "length (sort_insert e xs) = Suc (length xs)"
  by (induction xs) auto

lemma length_sort_Sort: "length (sort_Sort xs) = length xs"
  by (induction xs) (auto simp: length_sort_insert)

lemma sorted_sort_insert:
  "sortedByNameValue xs \<Longrightarrow> sortedByNameValue (sort_insert e xs)"
proof (induction xs)
  case Nil
  then show ?case by (simp add: sortedByNameValue_def)
next
  case (Cons x xs)
  then have tl: "sortedByNameValue (sort_insert e xs)"
    and hd: "\<forall>y\<in>set xs. Name x < Name y \<or> (Name x = Name y \<and> Value x \<le> Value y)"
    by (simp_all add: sortedByNameValue_def)
  show ?case
  proof (cases "Less x e")
    case True
    with hd tl show ?thesis
      by (auto simp: sortedByNameValue_def set_sort_insert Less_iff)
  next
    case False
    then have ex: "Name e < Name x \<or> (Name e = Name x \<and> Value e \<le> Value x)"
      by (auto simp: Less_iff)
    with hd have "\<forall>y\<in>set xs. Name e < Name y \<or> (Name e = Name y \<and> Value e \<le> Value y)"
      by force
    with False ex Cons.prems show ?thesis
      by (simp add: sortedByNameValue_def)
  qed
qed

lemma sorted_sort_Sort: "sortedByNameValue (sort_Sort xs)"
proof (induction xs)
  case Nil
  then show ?case by (simp add: sortedByNameValue_def)
next
  case (Cons x xs)
  then show ?case by (simp add: sorted_sort_insert)
qed

lemma scanParamValues_result:
  "scanParamValues n vs p v acc =
     (if (p \<longrightarrow> vs = []) \<and> (v \<longrightarrow> [] \<notin> set vs) \<and> ([] \<in> set vs \<longrightarrow> length vs \<le> 1)
      then Inr (acc @ map (\<lambda>x. \<lparr>Name = n, Value = x\<rparr>) vs)
      else Inl ErrURLPatternInvalidQueryRoute)"
  by (induction vs arbitrary: p v acc) auto

lemma scanParams_result:
  "scanParams vals acc =
     (if \<forall>(n, vs)\<in>set vals. [] \<in> set vs \<longrightarrow> length vs \<le> 1
      then Inr (acc @ requestEntries vals)
      else Inl ErrURLPatternInvalidQueryRoute)"
proof (induction vals arbitrary: acc)
  case Nil
  then show ?case by simp
next
  case (Cons a vals)
  obtain n vs where a: "a = (n, vs)" by (cases a)
  show ?case
    by (simp add: a scanParamValues_result Cons.IH)
qed

lemma mixed_values_iff:
  "(\<exists>i j. i < j \<and> j < length vs \<and> (vs ! i = [] \<or> (vs ! i \<noteq> [] \<and> vs ! j = [])))
     \<longleftrightarrow> ([] \<in> set vs \<and> 2 \<le> length vs)"
proof
  assume "\<exists>i j. i < j \<and> j < length vs \<and> (vs ! i = [] \<or> (vs ! i \<noteq> [] \<and> vs ! j = []))"
  then obtain i j where ij: "i < j" "j < length vs"
    and e: "vs ! i = [] \<or> (vs ! i \<noteq> [] \<and> vs ! j = [])"
    by blast
  from ij have "i < length vs" by simp
  with ij e have "[] \<in> set vs"
    by (metis nth_mem)
  with ij show "[] \<in> set vs \<and> 2 \<le> length vs" by simp
next
  assume a: "[] \<in> set vs \<and> 2 \<le> length vs"
  then obtain k where k: "k < length vs" "vs ! k = []"
    by (auto simp: in_set_conv_nth)
  show "\<exists>i j. i < j \<and> j < length vs \<and> (vs ! i = [] \<or> (vs ! i \<noteq> [] \<and> vs ! j = []))"
  proof (cases "Suc k < length vs")
    case True
    with k show ?thesis
      by (intro exI [of _ k] exI [of _ "Suc k"]) simp
  next
    case False
    with k a have "k - 1 < k" "k < length vs" by simp_all
    with k show ?thesis
      by (intro exI [of _ "k - 1"] exI [of _ k]) auto
  qed
qed

lemma in_requestEntries:
  "e \<in> set (requestEntries vals)
     \<longleftrightarrow> (\<exists>n vs v. e = \<lparr>Name = n, Value = v\<rparr> \<and> (n, vs) \<in> set vals \<and> v \<in> set vs)"
proof (induction vals)
  case Nil
  then show ?case by simp
next
  case (Cons a vals)
  obtain n vs where a: "a = (n, vs)" by (cases a)
  show ?case
    unfolding a by (simp add: Cons.IH image_iff) blast
qed

lemma set_requestEntries:
  "set (requestEntries vals) = {\<lparr>Name = n, Value = v\<rparr> | n vs v. (n, vs) \<in> set vals \<and> v \<in> set vs}"
  using in_requestEntries by blast

lemma length_requestEntries:
  "length (requestEntries vals) = sum_list (map (\<lambda>(n, vs). length vs) vals)"
  by (induction vals) auto

lemma Less_irrefl: "\<not> Less a a"
  by (simp add: Less_iff)

lemma satisfiedBy_Nil: "\<not> satisfiedBy e []"
  by (simp add: satisfiedBy_def)

lemma satisfiedBy_Cons:
  "satisfiedBy e (q # qs)
     \<longleftrightarrow> (if Value e = [] then Name q = Name e else q = e) \<or> satisfiedBy e qs"
  by (auto simp: satisfiedBy_def)

lemma satisfiedBy_skip_same:
  assumes "Name r > Name q \<or> (Name r = Name q \<and> Value r \<noteq> [] \<and> Value r > Value q)"
  shows "satisfiedBy r (q # qs) \<longleftrightarrow> satisfiedBy r qs"
  using assms by (auto simp: satisfiedBy_Cons)

lemma satisfiedBy_skip_later:
  assumes "Name r > Name q \<or> (Name r = Name q \<and> Value r \<noteq> [] \<and> Value r > Value q)"
    and "Less r e"
  shows "satisfiedBy e (q # qs) \<longleftrightarrow> satisfiedBy e qs"
  using assms by (auto simp: satisfiedBy_Cons Less_iff)

lemma satisfiedBy_match_same:
  assumes "Name r = Name q \<and> (Value r = [] \<or> Value r = Value q)"
  shows "satisfiedBy r (q # qs)"
  using assms by (auto simp: satisfiedBy_Cons)

lemma satisfiedBy_match_later:
  assumes "Name r = Name q \<and> (Value r = [] \<or> Value r = Value q)"
    and "Less r e" and "Name r = Name e \<and> Value r = [] \<longrightarrow> e = r"
  shows "satisfiedBy e (q # qs) \<longleftrightarrow> satisfiedBy e qs"
  using assms by (auto simp: satisfiedBy_Cons Less_iff)

lemma satisfiedBy_beyond:
  assumes "\<not> (Name r > Name q \<or> (Name r = Name q \<and> Value r \<noteq> [] \<and> Value r > Value q))"
    and "\<not> (Name r = Name q \<and> (Value r = [] \<or> Value r = Value q))"
    and "sortedByNameValue (q # qs)"
  shows "\<not> satisfiedBy r (q # qs)"
proof -
  from assms(1,2) have b: "Name r < Name q \<or> (Name r = Name q \<and> Value r \<noteq> [] \<and> Value r < Value q)"
    by auto
  from assms(3) have s: "\<forall>x\<in>set (q # qs). Name q < Name x \<or> (Name q = Name x \<and> Value q \<le> Value x)"
    by (auto simp: sortedByNameValue_def)
  show ?thesis
  proof
    assume sat: "satisfiedBy r (q # qs)"
    show False
    proof (cases "Value r = []")
      case True
      with sat have "\<exists>x\<in>set (q # qs). Name x = Name r"
        by (auto simp: satisfiedBy_def)
      with s b True show False by force
    next
      case False
      with sat have "r \<in> set (q # qs)"
        by (simp add: satisfiedBy_def)
      with s b show False by force
    qed
  qed
qed

lemma nth_Less_later:
  assumes "sorted_wrt Less R" and "ri < length R" and "e \<in> set (drop (Suc ri) R)"
  shows "Less (R ! ri) e"
proof -
  from assms(3) obtain k where "k < length (drop (Suc ri) R)" "e = drop (Suc ri) R ! k"
    by (auto simp: in_set_conv_nth)
  then have "Suc ri + k < length R" "e = R ! (Suc ri + k)"
    by simp_all
  with assms(1) show ?thesis
    by (simp add: sorted_wrt_iff_nth_less)
qed

lemma Acceptable_loop_satisfied:
  assumes "sorted_wrt Less R" and "presenceAlone R" and "sortedByNameValue Q"
    and "ri \<le> length R" and "qi \<le> length Q"
  shows "Acceptable_loop R Q ri qi used \<longleftrightarrow>
     (if ri < length R
      then (used \<or> satisfiedBy (R ! ri) (drop qi Q))
           \<and> (\<forall>e\<in>set (drop (Suc ri) R). satisfiedBy e (drop qi Q))
      else \<not> used)"
  using assms
proof (induction R Q ri qi used rule: Acceptable_loop.induct)
  case (1 R Q ri qi used)
  show ?case
  proof (cases "ri < length R \<and> qi < length Q")
    case False
    with "1.prems" have "ri = length R \<or> (ri < length R \<and> qi = length Q)"
      by auto
    then show ?thesis
    proof
      assume "ri = length R"
      then show ?thesis
        by (subst Acceptable_loop.simps) simp
    next
      assume a: "ri < length R \<and> qi = length Q"
      then have "drop (Suc ri) R = [] \<longleftrightarrow> Suc ri = length R"
        by auto
      with a show ?thesis
        by (subst Acceptable_loop.simps) (auto simp: satisfiedBy_Nil)
    qed
  next
    case True
    define r where "r = R ! ri"
    define q where "q = Q ! qi"
    from True have dq: "drop qi Q = q # drop (Suc qi) Q"
      by (simp add: q_def Cons_nth_drop_Suc)
    from True "1.prems" have later: "\<And>e. e \<in> set (drop (Suc ri) R) \<Longrightarrow> Less r e"
      unfolding r_def by (simp add: nth_Less_later)
    have alone: "\<And>e. e \<in> set (drop (Suc ri) R) \<Longrightarrow> Name r = Name e \<and> Value r = [] \<longrightarrow> e = r"
    proof -
      fix e assume "e \<in> set (drop (Suc ri) R)"
      then have "e \<in> set R" by (rule in_set_dropD)
      moreover from True have "r \<in> set R" by (simp add: r_def)
      ultimately show "Name r = Name e \<and> Value r = [] \<longrightarrow> e = r"
        using "1.prems"(2) by (auto simp: presenceAlone_def)
    qed
    from "1.prems"(3) have sq: "sortedByNameValue (q # drop (Suc qi) Q)"
      unfolding dq [symmetric] sortedByNameValue_def by (rule sorted_wrt_drop)
    consider (skip) "Name r > Name q \<or> (Name r = Name q \<and> Value r \<noteq> [] \<and> Value r > Value q)"
      | (match) "\<not> (Name r > Name q \<or> (Name r = Name q \<and> Value r \<noteq> [] \<and> Value r > Value q))"
          "Name r = Name q \<and> (Value r = [] \<or> Value r = Value q)"
      | (next_route) "\<not> (Name r > Name q \<or> (Name r = Name q \<and> Value r \<noteq> [] \<and> Value r > Value q))"
          "\<not> (Name r = Name q \<and> (Value r = [] \<or> Value r = Value q))" "used"
      | (reject) "\<not> (Name r > Name q \<or> (Name r = Name q \<and> Value r \<noteq> [] \<and> Value r > Value q))"
          "\<not> (Name r = Name q \<and> (Value r = [] \<or> Value r = Value q))" "\<not> used"
      by blast
    then show ?thesis
    proof cases
      case skip
      have step: "Acceptable_loop R Q ri qi used = Acceptable_loop R Q ri (Suc qi) used"
        using True skip by (subst Acceptable_loop.simps) (auto simp add: r_def q_def)
      have ih: "Acceptable_loop R Q ri (Suc qi) used \<longleftrightarrow>
          (used \<or> satisfiedBy r (drop (Suc qi) Q))
           \<and> (\<forall>e\<in>set (drop (Suc ri) R). satisfiedBy e (drop (Suc qi) Q))"
        using "1.IH"(1) [OF True] skip True "1.prems" by (simp add: r_def q_def)
      show ?thesis
        using True later skip
        by (simp add: step ih dq r_def [symmetric] satisfiedBy_skip_same satisfiedBy_skip_later)
    next
      case match
      have step: "Acceptable_loop R Q ri qi used = Acceptable_loop R Q ri (Suc qi) True"
        using True match by (subst Acceptable_loop.simps) (auto simp add: r_def q_def)
      have ih: "Acceptable_loop R Q ri (Suc qi) True \<longleftrightarrow>
           (\<forall>e\<in>set (drop (Suc ri) R). satisfiedBy e (drop (Suc qi) Q))"
        using "1.IH"(2) [OF True] match True "1.prems" by (simp add: r_def q_def)
      show ?thesis
        using True later alone match
        by (simp add: step ih dq r_def [symmetric] satisfiedBy_match_same satisfiedBy_match_later)
    next
      case next_route
      have step: "Acceptable_loop R Q ri qi used = Acceptable_loop R Q (Suc ri) qi False"
        using True next_route by (subst Acceptable_loop.simps) (auto simp add: r_def q_def)
      have ih: "Acceptable_loop R Q (Suc ri) qi False \<longleftrightarrow>
           (\<forall>e\<in>set (drop (Suc ri) R). satisfiedBy e (drop qi Q))"
      proof (cases "Suc ri < length R")
        case t: True
        then have "drop (Suc ri) R = R ! Suc ri # drop (Suc (Suc ri)) R"
          by (simp add: Cons_nth_drop_Suc)
        then show ?thesis
          using "1.IH"(3) [OF True] next_route True "1.prems" t by (simp add: r_def q_def)
      next
        case f: False
        then show ?thesis
          using "1.IH"(3) [OF True] next_route True "1.prems" by (simp add: r_def q_def)
      qed
      from step ih have "Acceptable_loop R Q ri qi used \<longleftrightarrow>
           (\<forall>e\<in>set (drop (Suc ri) R). satisfiedBy e (drop qi Q))"
        by simp
      then show ?thesis
        using True next_route by (simp add: r_def [symmetric])
    next
      case reject
      have step: "Acceptable_loop R Q ri qi used = False"
        using True reject by (subst Acceptable_loop.simps) (auto simp add: r_def q_def)
      from reject sq have "\<not> satisfiedBy r (drop qi Q)"
        unfolding dq by (intro satisfiedBy_beyond) simp_all
      with step show ?thesis
        using True reject by (simp add: r_def [symmetric])
    qed
  qed
qed


lemma satisfiedBy_set_cong: "set qs = set qs' \<Longrightarrow> satisfiedBy e qs = satisfiedBy e qs'"
  by (simp add: satisfiedBy_def)

lemma Acceptable_iff_satisfiedBy:
  assumes "sorted_wrt Less R" and "presenceAlone R"
  shows "Acceptable R req \<longleftrightarrow> (\<forall>e\<in>set R. satisfiedBy e (requestEntries req))"
proof -
  define Q where "Q = sort_Sort (requestEntries req)"
  have sq: "sortedByNameValue Q"
    by (simp add: Q_def sorted_sort_Sort)
  have sat: "\<And>e. satisfiedBy e Q = satisfiedBy e (requestEntries req)"
    by (rule satisfiedBy_set_cong) (simp add: Q_def set_sort_Sort)
  have "Acceptable R req \<longleftrightarrow>
     (if 0 < length R
      then (False \<or> satisfiedBy (R ! 0) (drop 0 Q))
           \<and> (\<forall>e\<in>set (drop (Suc 0) R). satisfiedBy e (drop 0 Q))
      else \<not> False)"
    unfolding Acceptable_def Q_def [symmetric]
    using assms sq by (intro Acceptable_loop_satisfied) simp_all
  also have "\<dots> \<longleftrightarrow> (\<forall>e\<in>set R. satisfiedBy e Q)"
    by (cases R) simp_all
  finally show ?thesis
    by (simp add: sat)
qed

lemma queryEntry_eq_iff: "a = b \<longleftrightarrow> Name a = Name b \<and> Value a = Value b"
  for a b :: queryEntry
  by (cases a, cases b) simp

lemma distinct_sort_insert: "distinct (sort_insert e xs) \<longleftrightarrow> e \<notin> set xs \<and> distinct xs"
  by (induction xs) (auto simp: set_sort_insert)

lemma distinct_sort_Sort: "distinct (sort_Sort xs) \<longleftrightarrow> distinct xs"
  by (induction xs) (auto simp: distinct_sort_insert set_sort_Sort)

lemma sorted_distinct_Less:
  "sortedByNameValue xs \<Longrightarrow> distinct xs \<Longrightarrow> sorted_wrt Less xs"
proof (induction xs)
  case Nil
  then show ?case by simp
next
  case (Cons x xs)
  then have "sorted_wrt Less xs"
    by (simp add: sortedByNameValue_def)
  moreover have "\<forall>y\<in>set xs. Less x y"
  proof
    fix y assume y: "y \<in> set xs"
    with Cons.prems have "Name x < Name y \<or> (Name x = Name y \<and> Value x \<le> Value y)" and "x \<noteq> y"
      by (auto simp: sortedByNameValue_def)
    then show "Less x y"
      by (auto simp: Less_iff queryEntry_eq_iff)
  qed
  ultimately show ?case by simp
qed

lemma distinct_requestEntries:
  assumes "distinct (map fst vals)" and "\<forall>(n, vs)\<in>set vals. distinct vs"
  shows "distinct (requestEntries vals)"
  using assms
proof (induction vals)
  case Nil
  then show ?case by simp
next
  case (Cons a vals)
  obtain n vs where a: "a = (n, vs)" by (cases a)
  from Cons.prems have d: "distinct vs" and k: "n \<notin> fst ` set vals"
    and rest: "distinct (requestEntries vals)"
    using Cons.IH by (auto simp: a)
  have inj: "distinct (map (\<lambda>v. \<lparr>Name = n, Value = v\<rparr>) vs)"
    using d by (simp add: distinct_map inj_on_def)
  have disj: "\<And>v. \<lparr>Name = n, Value = v\<rparr> \<notin> set (requestEntries vals)"
    using k by (force simp: in_requestEntries)
  from inj rest disj show ?case
    by (auto simp: a)
qed

lemma newQueryRoute_strict:
  assumes "newQueryRoute vals = Inr R" and "distinct (map fst vals)"
    and "\<forall>(n, vs)\<in>set vals. distinct vs"
  shows "sorted_wrt Less R \<and> presenceAlone R"
proof -
  from assms(1) have ok: "\<forall>(n, vs)\<in>set vals. [] \<in> set vs \<longrightarrow> length vs \<le> 1"
    and R: "R = sort_Sort (requestEntries vals)"
    by (auto simp: newQueryRoute_def scanParams_result split: if_splits)
  have "distinct R"
    using assms(2,3) by (simp add: R distinct_sort_Sort distinct_requestEntries)
  then have 1: "sorted_wrt Less R"
    by (simp add: R sorted_sort_Sort sorted_distinct_Less)
  have 2: "presenceAlone R"
    unfolding presenceAlone_def
  proof (intro ballI impI)
    fix a b assume a: "a \<in> set R" and b: "b \<in> set R" and e: "Name a = Name b \<and> Value a = []"
    from a obtain n vs v where av: "a = \<lparr>Name = n, Value = v\<rparr>" "(n, vs) \<in> set vals" "v \<in> set vs"
      by (auto simp: R set_sort_Sort in_requestEntries)
    from b obtain n' vs' v' where bv: "b = \<lparr>Name = n', Value = v'\<rparr>" "(n', vs') \<in> set vals"
      "v' \<in> set vs'"
      by (auto simp: R set_sort_Sort in_requestEntries)
    from e av bv have "n' = n" "v = []" by simp_all
    with av bv assms(2) have "vs' = vs"
      by (meson eq_key_imp_eq_value)
    from ok av \<open>v = []\<close> have "length vs \<le> 1" by auto
    with av(3) bv(3) \<open>vs' = vs\<close> have "v' = v"
      by (cases vs) auto
    with av bv \<open>n' = n\<close> show "b = a" by simp
  qed
  from 1 2 show ?thesis ..
qed

lemma requestEntries_append:
  "requestEntries (xs @ ys) = requestEntries xs @ requestEntries ys"
  by (induction xs) auto

lemma satisfiedBy_unnamed:
  assumes "Name e \<notin> fst ` set extra"
  shows "satisfiedBy e (requestEntries (req @ extra)) = satisfiedBy e (requestEntries req)"
proof -
  from assms have n: "\<And>x. x \<in> set (requestEntries extra) \<Longrightarrow> Name x \<noteq> Name e"
    by (force simp: in_requestEntries)
  then have 1: "Name e \<notin> Name ` set (requestEntries extra)"
    by force
  from n have 2: "e \<notin> set (requestEntries extra)"
    by blast
  from 1 2 show ?thesis
    by (simp add: satisfiedBy_def requestEntries_append image_Un)
qed

subsection \<open>Conflicting routes in the table (C1)\<close>

text \<open>
  C1 says that no two entries of a reachable table compare equal under the dynamic
  comparator.  The dynamic comparator is not transitive and the binary search probes
  only some entries: \<open>?a=1&b\<close>, \<open>?a=2&b=x\<close> and \<open>?a&b=z\<close> on the same path are
  registered one after the other without an error, and the third compares equal to
  the first.
\<close>

theorem Handle_stores_conflicting_routes:
  "fst (Handle plainParse ''GET'' ''http://h/p?a=1&b'' (Some 1) mux_empty) = None
   \<and> fst (Handle plainParse ''GET'' ''http://h/p?a=2&b=x'' (Some 2) table_q1) = None
   \<and> fst (Handle plainParse ''GET'' ''http://h/p?a&b=z'' (Some 3) table_q2) = None
   \<and> map handler (entries table_q3) = [1, 2, 3]
   \<and> compareDynamicRoutes (route (entries table_q3 ! 2)) (route (entries table_q3 ! 0)) = 0
   \<and> compareDynamicRoutes (route (entries table_q3 ! 0)) (route (entries table_q3 ! 2)) = 0"
  by code_simp

subsection \<open>Register, then remove (C2)\<close>

text \<open>
  C2 says that removing a pattern that was just registered gives back the table from
  before.  The removal searches with the static comparator in a table that is ordered
  by the dynamic one: after \<open>/{w}/a\<close> (handler 1) and \<open>/{v}/b\<close> (handler 2) are
  registered, removing \<open>/{v}/b\<close> succeeds and deletes the entry of \<open>/{w}/a\<close>.
\<close>

theorem RemoveHandler_removes_other_route:
  "fst (Handle plainParse ''GET'' ''http://h/{w}/a'' (Some 1) mux_empty) = None
   \<and> map handler (entries table_w) = [1]
   \<and> fst (Handle plainParse ''GET'' ''http://h/{v}/b'' (Some 2) table_w) = None
   \<and> map handler (entries table_wv) = [1, 2]
   \<and> fst (RemoveHandler plainParse ''GET'' ''http://h/{v}/b'' table_wv) = None
   \<and> map handler (entries (snd (RemoveHandler plainParse ''GET'' ''http://h/{v}/b'' table_wv)))
     = [2]
   \<and> snd (RemoveHandler plainParse ''GET'' ''http://h/{v}/b'' table_wv) \<noteq> table_w"
  by code_simp

subsection \<open>A variable against a literal in the dynamic comparator (C3)\<close>

text \<open>
  C3 as stated: where exactly one side's segment is a variable the dynamic comparator
  goes on to the next segment, and later segments, the lengths or the queries decide.
  Between \<open>/{a}/x\<close> and \<open>/fixed/y\<close> the comparator of the source is 0, and the
  comparator that goes on is \<open>-1\<close>, decided by \<open>x < y\<close>.
\<close>

theorem compareDynamicRoutes_variable_literal_counterexample:
  "newMuxRoute plainParse ''GET'' ''http://h/{a}/x'' = Inr route_var_x
   \<and> newMuxRoute plainParse ''GET'' ''http://h/fixed/y'' = Inr route_fixed_y
   \<and> compareDynamicRoutes route_var_x route_fixed_y = 0
   \<and> compareDynamicRoutes_claimed route_var_x route_fixed_y = - 1"
  by code_simp

text \<open>
  C3 as amended: when the two routes have the same method, scheme and host, no
  position before \<open>i\<close> decides (both segments are variables, or both are the same
  literal), and at position \<open>i\<close> exactly one of the two segments is a variable, the
  dynamic comparator returns zero: the routes conflict, whatever the later segments,
  the lengths and the queries are.
\<close>

theorem compareDynamicRoutes_variable_literal_conflict:
  assumes "route_method r1 = route_method r2" and "scheme r1 = scheme r2"
    and "host r1 = host r2"
    and "i < length (path r1)" and "i < length (path r2)"
    and "isVarSeg (path r1 ! i) \<noteq> isVarSeg (path r2 ! i)"
    and "\<forall>j<i. isVarSeg (path r1 ! j) = isVarSeg (path r2 ! j)
              \<and> (isVarSeg (path r1 ! j) \<or> path r1 ! j = path r2 ! j)"
  shows "compareDynamicRoutes r1 r2 = 0"
proof -
  have "compareDynamicRoutes_path (path r1) (path r2) 0 = Some 0"
    using assms(4-7) by (rule compareDynamicRoutes_path_mismatch) simp
  with assms(1-3) show ?thesis
    by (simp add: compareDynamicRoutes_def compareMethodSchemeHost_def strings_Compare_def)
qed

text \<open>
  Witness for C3: \<open>/{a}/x\<close> against \<open>/fixed/y\<close>, at position 0.
\<close>

theorem compareDynamicRoutes_variable_literal_conflict_witness:
  "isVarSeg (path route_var_x ! 0) \<and> \<not> isVarSeg (path route_fixed_y ! 0)
   \<and> compareDynamicRoutes route_var_x route_fixed_y = 0"
proof -
  have 1: "isVarSeg (path route_var_x ! 0)" and 2: "\<not> isVarSeg (path route_fixed_y ! 0)"
    by code_simp+
  have 3: "route_method route_var_x = route_method route_fixed_y"
    "scheme route_var_x = scheme route_fixed_y" "host route_var_x = host route_fixed_y"
    "0 < length (path route_var_x)" "0 < length (path route_fixed_y)"
    by (simp_all add: route_var_x_def route_fixed_y_def)
  show ?thesis
    using 1 2 3
      compareDynamicRoutes_variable_literal_conflict [of route_var_x route_fixed_y 0]
    by simp
qed

subsection \<open>The request comparator and the query string (C4)\<close>

text \<open>
  C4 says that two requests that differ only in their query string get the same
  result from the request comparator.  \<open>compareRequestRoute\<close> splits
  \<open>req.URL.RequestURI()\<close>, which ends in \<open>?\<close> and the raw query, so the query is part
  of the last segment: against the route \<open>GET http://h/a\<close> the request \<open>/a\<close> compares
  equal and the request \<open>/a?x=1\<close> compares greater, and the binary search finds the
  entry for the first request and nothing for the second.
\<close>

theorem compareRequestRoute_depends_on_query:
  "fst (Handle plainParse ''GET'' ''http://h/a'' (Some 1) mux_empty) = None
   \<and> map route (entries table_a)
     = [\<lparr>route_method = ''GET'', scheme = ''http'', host = ''h'', path = [''a''], vars = [],
         query = []\<rparr>]
   \<and> compareRequestRoute (request ''GET'' ''h'' ''/a'' []) (route (entries table_a ! 0)) = 0
   \<and> compareRequestRoute (request ''GET'' ''h'' ''/a'' ''x=1'') (route (entries table_a ! 0))
     = 1
   \<and> searchRange (length (entries table_a))
        (\<lambda>i. compareRequestRoute (request ''GET'' ''h'' ''/a'' [])
                (route (entries table_a ! i))) = (0, 1, True)
   \<and> searchRange (length (entries table_a))
        (\<lambda>i. compareRequestRoute (request ''GET'' ''h'' ''/a'' ''x=1'')
                (route (entries table_a ! i))) = (1, 1, False)"
  by code_simp

subsection \<open>Wildcard extraction (C5)\<close>

text \<open>
  C5 as stated: with the pattern \<open>/parent/{*}\<close> registered, \<open>PathVars\<close> on the
  request path \<open>/parent\<close> returns a mapping with \<open>*\<close> bound to the empty string.
  The request comparator returns the length difference when the request has no
  segment at the position of the wildcard, so the request does not match and
  \<open>PathVars\<close> returns the empty mapping.
\<close>

theorem PathVars_wildcard_parent_counterexample:
  "fst (Handle plainParse ''GET'' ''http://h/parent/{*}'' (Some 1) mux_empty) = None
   \<and> PathVars table_parent (request ''GET'' ''h'' ''/parent'' []) = Inr Map.empty"
proof -
  have 1: "fst (Handle plainParse ''GET'' ''http://h/parent/{*}'' (Some 1) mux_empty) = None"
    by code_simp
  have 2: "searchRange (length (entries table_parent))
             (\<lambda>i. compareRequestRoute (request ''GET'' ''h'' ''/parent'' [])
                     (route (entries table_parent ! i))) = (0, 0, False)"
    by code_simp
  show ?thesis
    using 1 by (simp add: 2 PathVars_def)
qed

text \<open>
  C5 as amended: with the pattern \<open>/parent/{*}\<close> registered, \<open>PathVars\<close> on the
  request path \<open>/parent/x/y\<close> returns the mapping of \<open>*\<close> to \<open>x/y\<close>; on the request
  path \<open>/parent\<close> the request comparator is negative (the wildcard needs one segment
  at least) and \<open>PathVars\<close> returns the empty mapping.
\<close>

theorem PathVars_wildcard_extraction:
  "fst (Handle plainParse ''GET'' ''http://h/parent/{*}'' (Some 1) mux_empty) = None
   \<and> PathVars table_parent (request ''GET'' ''h'' ''/parent/x/y'' [])
     = Inr [''*'' \<mapsto> ''x/y'']
   \<and> compareRequestRoute (request ''GET'' ''h'' ''/parent'' [])
       (route (entries table_parent ! 0)) = - 1
   \<and> PathVars table_parent (request ''GET'' ''h'' ''/parent'' []) = Inr Map.empty"
proof -
  have 1: "fst (Handle plainParse ''GET'' ''http://h/parent/{*}'' (Some 1) mux_empty) = None"
    by code_simp
  have 2: "searchRange (length (entries table_parent))
             (\<lambda>i. compareRequestRoute (request ''GET'' ''h'' ''/parent'' [])
                     (route (entries table_parent ! i))) = (0, 0, False)"
    by code_simp
  have 3: "searchRange (length (entries table_parent))
             (\<lambda>i. compareRequestRoute (request ''GET'' ''h'' ''/parent/x/y'' [])
                     (route (entries table_parent ! i))) = (0, 1, True)"
    by code_simp
  have 4: "vars (route (entries table_parent ! 0)) = [(''*'', 1)]"
    by code_simp
  have 5: "splitPathSegs (Path (ReqURL (request ''GET'' ''h'' ''/parent/x/y'' [])))
      = [''parent'', ''x'', ''y'']"
    by code_simp
  have 6: "compareRequestRoute (request ''GET'' ''h'' ''/parent'' [])
      (route (entries table_parent ! 0)) = - 1"
    by code_simp
  show ?thesis
    using 1 by (simp add: 2 3 4 5 6 PathVars_def)
qed

subsection \<open>Trailing slashes (C6)\<close>

text \<open>
  C6 as stated: \<open>/fixed/\<close> and \<open>/fixed\<close> have different static identities, so after
  one is registered, removing with the other spelling fails with \<open>ErrRouteMustExist\<close>.
  The code trims the slashes before it splits the path: \<open>/fixed/\<close> is registered
  in the empty table, and the removal of \<open>/fixed\<close> succeeds and empties the table.
\<close>

theorem trailing_slash_counterexample:
  "fst (Handle plainParse ''GET'' ''http://h/fixed/'' (Some 1) mux_empty) = None
   \<and> RemoveHandler plainParse ''GET'' ''http://h/fixed'' table_fixed_slash = (None, mux_empty)"
  by code_simp

text \<open>
  C6 as amended: two patterns whose parsed URLs differ only in one more slash at the
  end of the path have the same static identity.  \<open>newMuxRoute\<close> returns the same
  result for both, the static comparator is zero between the two routes, and
  \<open>RemoveHandler\<close> does the same with either spelling on every table.
\<close>

theorem trailing_slash_same_static_identity:
  assumes "parse p1 = Some u" and "parse p2 = Some (u\<lparr>Path := Path u @ ''/''\<rparr>)"
    and "p1 \<noteq> []" and "p2 \<noteq> []"
  shows "newMuxRoute parse httpMethod p2 = newMuxRoute parse httpMethod p1
    \<and> RemoveHandler parse httpMethod p2 m = RemoveHandler parse httpMethod p1 m
    \<and> (\<forall>r1 r2. newMuxRoute parse httpMethod p1 = Inr r1
          \<longrightarrow> newMuxRoute parse httpMethod p2 = Inr r2
          \<longrightarrow> compareStaticRoutes r1 r2 = 0)"
proof -
  have eq: "newMuxRoute parse httpMethod p2 = newMuxRoute parse httpMethod p1"
    using assms by (rule newMuxRoute_trailing_slash)
  then show ?thesis
    by (simp add: RemoveHandler_def compareStaticRoutes_refl)
qed

text \<open>
  Witness for C6: \<open>http://h/fixed\<close> and \<open>http://h/fixed/\<close> with the parser for plain
  patterns, on the table that holds \<open>/fixed\<close>.
\<close>

theorem trailing_slash_same_static_identity_witness:
  "plainParse ''http://h/fixed''
     = Some \<lparr>Scheme = ''http'', Host = ''h'', Path = ''/fixed'', ForceQuery = False,
              RawQuery = []\<rparr>
   \<and> plainParse ''http://h/fixed/''
     = Some \<lparr>Scheme = ''http'', Host = ''h'', Path = ''/fixed/'', ForceQuery = False,
              RawQuery = []\<rparr>
   \<and> newMuxRoute plainParse ''GET'' ''http://h/fixed/''
     = newMuxRoute plainParse ''GET'' ''http://h/fixed''
   \<and> RemoveHandler plainParse ''GET'' ''http://h/fixed/'' table_fixed
     = RemoveHandler plainParse ''GET'' ''http://h/fixed'' table_fixed
   \<and> RemoveHandler plainParse ''GET'' ''http://h/fixed/'' table_fixed = (None, mux_empty)"
proof -
  have 1: "plainParse ''http://h/fixed''
      = Some \<lparr>Scheme = ''http'', Host = ''h'', Path = ''/fixed'', ForceQuery = False,
               RawQuery = []\<rparr>"
    by code_simp
  have 2: "plainParse ''http://h/fixed/''
      = Some (\<lparr>Scheme = ''http'', Host = ''h'', Path = ''/fixed'', ForceQuery = False,
                RawQuery = []\<rparr>
               \<lparr>Path := Path \<lparr>Scheme = ''http'', Host = ''h'', Path = ''/fixed'',
                               ForceQuery = False, RawQuery = []\<rparr> @ ''/''\<rparr>)"
    by code_simp
  have 3: "RemoveHandler plainParse ''GET'' ''http://h/fixed/'' table_fixed = (None, mux_empty)"
    by code_simp
  show ?thesis
    using trailing_slash_same_static_identity [where parse = plainParse
        and ?p1.0 = "''http://h/fixed''" and ?p2.0 = "''http://h/fixed/''"
        and httpMethod = "''GET''" and m = table_fixed, OF 1 2] 1 2 3
    by simp
qed

subsection \<open>Acceptance of a request query (C7)\<close>

text \<open>
  C7 as stated: the route \<open>?tag=a&tag=b\<close> accepts the request \<open>?tag=b&other=x\<close>,
  one matching value being enough for the entries that share a name.  The loop leaves
  an entry only when a request value has matched it, so the entry \<open>tag=a\<close> is
  never passed and the request is rejected.
\<close>

theorem Acceptable_or_counterexample:
  "newQueryRoute [(''tag'', [''a'', ''b''])]
     = Inr [\<lparr>Name = ''tag'', Value = ''a''\<rparr>, \<lparr>Name = ''tag'', Value = ''b''\<rparr>]
   \<and> \<not> Acceptable [\<lparr>Name = ''tag'', Value = ''a''\<rparr>, \<lparr>Name = ''tag'', Value = ''b''\<rparr>]
         [(''tag'', [''b'']), (''other'', [''x''])]"
  by code_simp

text \<open>
  C7 as amended: for a route that \<open>newQueryRoute\<close> builds from parameters with
  distinct names and no repeated value, \<open>Acceptable\<close> is true exactly when the
  request satisfies every entry of the route: every value test \<open>name=value\<close> is
  among the request parameters and every presence test names a request parameter.
  Entries that share a name must all be matched.  Request parameters that the route
  does not name are ignored: adding them does not change the result.
\<close>

theorem Acceptable_all_entries_satisfied:
  assumes "newQueryRoute vals = Inr rt" and "distinct (map fst vals)"
    and "\<forall>(n, vs)\<in>set vals. distinct vs"
  shows "(Acceptable rt req \<longleftrightarrow> (\<forall>e\<in>set rt. satisfiedBy e (requestEntries req)))
    \<and> ((\<forall>p\<in>set extra. fst p \<notin> Name ` set rt)
        \<longrightarrow> Acceptable rt (req @ extra) = Acceptable rt req)"
proof -
  from assms have s: "sorted_wrt Less rt" "presenceAlone rt"
    using newQueryRoute_strict by blast+
  have iff: "\<And>q. Acceptable rt q \<longleftrightarrow> (\<forall>e\<in>set rt. satisfiedBy e (requestEntries q))"
    using s by (rule Acceptable_iff_satisfiedBy)
  have "Acceptable rt (req @ extra) = Acceptable rt req"
    if "\<forall>p\<in>set extra. fst p \<notin> Name ` set rt"
  proof -
    from that have "\<And>e. e \<in> set rt \<Longrightarrow> Name e \<notin> fst ` set extra"
      by force
    then show ?thesis
      by (simp add: iff satisfiedBy_unnamed)
  qed
  with iff show ?thesis
    by blast
qed

text \<open>
  Witness for C7: the route \<open>?tag=a&tag=b\<close> accepts \<open>?tag=b&tag=a&other=x\<close>,
  rejects \<open>?tag=b&other=x\<close> and \<open>?tag=c\<close>, and \<open>other=x\<close> changes nothing.
\<close>

theorem Acceptable_all_entries_satisfied_witness:
  "newQueryRoute [(''tag'', [''a'', ''b''])]
     = Inr [\<lparr>Name = ''tag'', Value = ''a''\<rparr>, \<lparr>Name = ''tag'', Value = ''b''\<rparr>]
   \<and> Acceptable [\<lparr>Name = ''tag'', Value = ''a''\<rparr>, \<lparr>Name = ''tag'', Value = ''b''\<rparr>]
         [(''tag'', [''b'', ''a'']), (''other'', [''x''])]
   \<and> \<not> Acceptable [\<lparr>Name = ''tag'', Value = ''a''\<rparr>, \<lparr>Name = ''tag'', Value = ''b''\<rparr>]
         [(''tag'', [''b'']), (''other'', [''x''])]
   \<and> \<not> Acceptable [\<lparr>Name = ''tag'', Value = ''a''\<rparr>, \<lparr>Name = ''tag'', Value = ''b''\<rparr>]
         [(''tag'', [''c''])]
   \<and> Acceptable [\<lparr>Name = ''tag'', Value = ''a''\<rparr>, \<lparr>Name = ''tag'', Value = ''b''\<rparr>]
         ([(''tag'', [''b'', ''a''])] @ [(''other'', [''x''])])
       = Acceptable [\<lparr>Name = ''tag'', Value = ''a''\<rparr>, \<lparr>Name = ''tag'', Value = ''b''\<rparr>]
         [(''tag'', [''b'', ''a''])]"
proof -
  have 1: "newQueryRoute [(''tag'', [''a'', ''b''])]
     = Inr [\<lparr>Name = ''tag'', Value = ''a''\<rparr>, \<lparr>Name = ''tag'', Value = ''b''\<rparr>]"
    by code_simp
  have 2: "distinct (map fst [(''tag'', [''a'', ''b''])])"
    and 3: "\<forall>(n, vs)\<in>set [(''tag'', [''a'', ''b''])]. distinct vs"
    by simp_all
  note t = Acceptable_all_entries_satisfied [OF 1 2 3]
  show ?thesis
    using 1 t [of "[(''tag'', [''b'', ''a'']), (''other'', [''x''])]" "[]"]
      t [of "[(''tag'', [''b'']), (''other'', [''x''])]" "[]"]
      t [of "[(''tag'', [''c''])]" "[]"]
      t [of "[(''tag'', [''b'', ''a''])]" "[(''other'', [''x''])]"]
    by (simp add: satisfiedBy_def)
qed

subsection \<open>Validation of a query route (C8)\<close>

text \<open>
  C8: \<open>newQueryRoute\<close> fails, with \<open>ErrURLPatternInvalidQueryRoute\<close> and no other
  error, if and only if for some parameter name the list of its values has a value
  (empty or not) after an earlier empty value, or an empty value after an earlier
  nonempty value.  On success the entries are sorted by name, then value, and they
  are the pairs of a name and one of its values, as many as the parameters list.
\<close>

theorem newQueryRoute_validation:
  "(newQueryRoute vals = Inl ErrURLPatternInvalidQueryRoute
      \<longleftrightarrow> (\<exists>(n, vs)\<in>set vals. \<exists>i j. i < j \<and> j < length vs
               \<and> (vs ! i = [] \<or> (vs ! i \<noteq> [] \<and> vs ! j = []))))
   \<and> (\<forall>e. newQueryRoute vals = Inl e \<longrightarrow> e = ErrURLPatternInvalidQueryRoute)
   \<and> (\<forall>r. newQueryRoute vals = Inr r
        \<longrightarrow> sortedByNameValue r
          \<and> set r = {\<lparr>Name = n, Value = v\<rparr> | n vs v. (n, vs) \<in> set vals \<and> v \<in> set vs}
          \<and> length r = sum_list (map (\<lambda>(n, vs). length vs) vals))"
proof -
  have ok: "(\<forall>(n, vs)\<in>set vals. [] \<in> set vs \<longrightarrow> length vs \<le> 1)
      \<longleftrightarrow> \<not> (\<exists>(n, vs)\<in>set vals. \<exists>i j. i < j \<and> j < length vs
               \<and> (vs ! i = [] \<or> (vs ! i \<noteq> [] \<and> vs ! j = [])))"
    unfolding mixed_values_iff by (auto simp: not_le)
  show ?thesis
  proof (cases "\<forall>(n, vs)\<in>set vals. [] \<in> set vs \<longrightarrow> length vs \<le> 1")
    case True
    then have "newQueryRoute vals = Inr (sort_Sort (requestEntries vals))"
      by (simp add: newQueryRoute_def scanParams_result)
    with True ok show ?thesis
      by (simp add: sorted_sort_Sort set_sort_Sort length_sort_Sort set_requestEntries
          length_requestEntries)
  next
    case False
    then have inl: "newQueryRoute vals = Inl ErrURLPatternInvalidQueryRoute"
      by (simp add: newQueryRoute_def scanParams_result)
    from False ok have "\<exists>(n, vs)\<in>set vals. \<exists>i j. i < j \<and> j < length vs
               \<and> (vs ! i = [] \<or> (vs ! i \<noteq> [] \<and> vs ! j = []))"
      by blast
    with inl show ?thesis
      by simp
  qed
qed

text \<open>
  Witness for C8: a presence test followed by a value, a value followed by a presence
  test, and a valid query whose entries come out sorted.
\<close>

theorem newQueryRoute_validation_witness:
  "newQueryRoute [(''q'', ['''', ''x''])] = Inl ErrURLPatternInvalidQueryRoute
   \<and> newQueryRoute [(''q'', [''x'', ''''])] = Inl ErrURLPatternInvalidQueryRoute
   \<and> newQueryRoute [(''tag'', [''b'', ''a'']), (''p'', [''''])]
     = Inr [\<lparr>Name = ''p'', Value = ''''\<rparr>, \<lparr>Name = ''tag'', Value = ''a''\<rparr>,
            \<lparr>Name = ''tag'', Value = ''b''\<rparr>]
   \<and> sortedByNameValue [\<lparr>Name = ''p'', Value = ''''\<rparr>, \<lparr>Name = ''tag'', Value = ''a''\<rparr>,
            \<lparr>Name = ''tag'', Value = ''b''\<rparr>]"
proof -
  have 1: "\<exists>(n, vs)\<in>set [(''q'', ['''', ''x''])]. \<exists>i j. i < j \<and> j < length vs
               \<and> (vs ! i = [] \<or> (vs ! i \<noteq> [] \<and> vs ! j = []))"
    by (simp, intro exI [of _ 0] exI [of _ 1]) simp
  have 2: "\<exists>(n, vs)\<in>set [(''q'', [''x'', ''''])]. \<exists>i j. i < j \<and> j < length vs
               \<and> (vs ! i = [] \<or> (vs ! i \<noteq> [] \<and> vs ! j = []))"
    by (simp, intro exI [of _ 0] exI [of _ 1]) simp
  have 3: "newQueryRoute [(''tag'', [''b'', ''a'']), (''p'', [''''])]
     = Inr [\<lparr>Name = ''p'', Value = ''''\<rparr>, \<lparr>Name = ''tag'', Value = ''a''\<rparr>,
            \<lparr>Name = ''tag'', Value = ''b''\<rparr>]"
    by code_simp
  show ?thesis
    using 1 2 3
      newQueryRoute_validation [of "[(''q'', ['''', ''x''])]"]
      newQueryRoute_validation [of "[(''q'', [''x'', ''''])]"]
      newQueryRoute_validation [of "[(''tag'', [''b'', ''a'']), (''p'', [''''])]"]
    by simp
qed

subsection \<open>No partial mutation (C9)\<close>

text \<open>
  C9: whenever \<open>Handle\<close> or \<open>RemoveHandler\<close> returns an error, the state of the
  table after the call is the state before the call.
\<close>

theorem mutation_atomic_on_error:
  "(fst (Handle parse httpMethod urlPattern hdl m) \<noteq> None
      \<longrightarrow> snd (Handle parse httpMethod urlPattern hdl m) = m)
   \<and> (fst (RemoveHandler parse httpMethod urlPattern m) \<noteq> None
      \<longrightarrow> snd (RemoveHandler parse httpMethod urlPattern m) = m)"
  by (auto simp: Handle_def RemoveHandler_def
      split: sum.splits option.splits prod.splits if_splits)

text \<open>
  Witness for C9: on the table that holds \<open>/fixed\<close>, registering \<open>/{a}\<close> is a
  conflict and removing \<open>/{a}\<close> finds nothing; both leave the table as it was.
\<close>

theorem mutation_atomic_on_error_witness:
  "fst (Handle plainParse ''GET'' ''http://h/{a}'' (Some 2) table_fixed)
     = Some ErrRouteMustNotConflict
   \<and> snd (Handle plainParse ''GET'' ''http://h/{a}'' (Some 2) table_fixed) = table_fixed
   \<and> fst (RemoveHandler plainParse ''GET'' ''http://h/{a}'' table_fixed)
     = Some ErrRouteMustExist
   \<and> snd (RemoveHandler plainParse ''GET'' ''http://h/{a}'' table_fixed) = table_fixed"
proof -
  have h: "fst (Handle plainParse ''GET'' ''http://h/{a}'' (Some 2) table_fixed)
      = Some ErrRouteMustNotConflict"
    by code_simp
  have r: "fst (RemoveHandler plainParse ''GET'' ''http://h/{a}'' table_fixed)
      = Some ErrRouteMustExist"
    by code_simp
  show ?thesis
    using h r mutation_atomic_on_error [of plainParse "''GET''" "''http://h/{a}''" "Some 2"
        table_fixed]
    by simp
qed

subsection \<open>Indexing in PathVars (C10)\<close>

text \<open>
  C10 says that \<open>PathVars\<close> never indexes out of range.  The match is computed on the
  segments of \<open>RequestURI()\<close> and the values are read from the segments of
  \<open>URL.Path\<close>: for the route \<open>/{p}/{q}\<close> the request \<open>/a?x=/b\<close> has the two segments
  \<open>a?x=\<close> and \<open>b\<close> in the comparator, matches, and has the one segment \<open>a\<close> in
  \<open>PathVars\<close>, where the index 1 of \<open>q\<close> is out of range.
\<close>

theorem PathVars_index_out_of_range:
  "fst (Handle plainParse ''GET'' ''http://h/{p}/{q}'' (Some 1) mux_empty) = None
   \<and> RequestURI (ReqURL (request ''GET'' ''h'' ''/a'' ''x=/b'')) = ''/a?x=/b''
   \<and> compareRequestRoute (request ''GET'' ''h'' ''/a'' ''x=/b'')
       (route (entries table_pq ! 0)) = 0
   \<and> PathVars table_pq (request ''GET'' ''h'' ''/a'' ''x=/b'') = Inl IndexOutOfRange"
proof -
  have 1: "fst (Handle plainParse ''GET'' ''http://h/{p}/{q}'' (Some 1) mux_empty) = None"
    by code_simp
  have 2: "RequestURI (ReqURL (request ''GET'' ''h'' ''/a'' ''x=/b'')) = ''/a?x=/b''"
    by code_simp
  have 3: "compareRequestRoute (request ''GET'' ''h'' ''/a'' ''x=/b'')
      (route (entries table_pq ! 0)) = 0"
    by code_simp
  have 4: "searchRange (length (entries table_pq))
             (\<lambda>i. compareRequestRoute (request ''GET'' ''h'' ''/a'' ''x=/b'')
                     (route (entries table_pq ! i))) = (0, 1, True)"
    by code_simp
  have 5: "vars (route (entries table_pq ! 0)) = [(''p'', 0), (''q'', 1)]"
    by code_simp
  have 6: "splitPathSegs (Path (ReqURL (request ''GET'' ''h'' ''/a'' ''x=/b''))) = [''a'']"
    by code_simp
  show ?thesis
    using 1 by (simp add: 2 3 4 5 6 PathVars_def)
qed

end
